theory Spec2Isabelle
  imports Complex_Main
begin

section \<open>The standard normal distribution\<close>

text \<open>
  The pricing module calls \<^verbatim>\<open>norm.pdf\<close> and \<^verbatim>\<open>norm.cdf\<close> of \<^verbatim>\<open>scipy.stats\<close>, the density
  and the cumulative distribution function of the standard normal distribution. Over the
  reals the density is \<open>exp (- x\<^sup>2 / 2) / sqrt (2 * pi)\<close>, and the distribution function is
  \<open>(1 + erf (x / sqrt 2)) / 2\<close>, with the error function given by its Maclaurin series
  \<open>erf x = 2 / sqrt pi * (\<Sum>n. (- 1) ^ n * x ^ (2 * n + 1) / (fact n * (2 * n + 1)))\<close>.
  The series is written as a power series in \<open>x\<close> whose even coefficients vanish
  (\<open>erf_series\<close> below gives the usual form).
\<close>

definition gauss_coeff :: "nat \<Rightarrow> real" where
  "gauss_coeff k =
     (if even k then 0 else (- 1) ^ ((k - 1) div 2) / (fact ((k - 1) div 2) * real k))"

definition gauss_int :: "real \<Rightarrow> real" where
  \<comment> \<open>the antiderivative of \<open>exp (- t\<^sup>2)\<close> that vanishes at 0\<close>
  "gauss_int x = (\<Sum>k. gauss_coeff k * x ^ k)"

definition erf :: "real \<Rightarrow> real" where
  "erf x = 2 / sqrt pi * gauss_int x"

definition norm_pdf :: "real \<Rightarrow> real" where
  "norm_pdf x = exp (- (x\<^sup>2) / 2) / sqrt (2 * pi)"

definition norm_cdf :: "real \<Rightarrow> real" where
  "norm_cdf x = (1 + erf (x / sqrt 2)) / 2"

section \<open>The pricing module \<^verbatim>\<open>options_calculator.py\<close>\<close>

text \<open>
  The functions of the module are first embedded over the reals: every double is read as the
  real number it stands for and every operation as the exact operation, with no rounding and
  no overflow. The arguments are Python floats, as the docstrings say, so \<^verbatim>\<open>/\<close> raises
  \<^verbatim>\<open>ZeroDivisionError\<close> on a zero divisor. The numpy operations do not raise: \<^verbatim>\<open>np.log\<close> of a
  non-positive number and the division by a zero \<^verbatim>\<open>volatility * np.sqrt(time_to_expiry)\<close> warn
  and go on with \<^verbatim>\<open>inf\<close> or \<^verbatim>\<open>nan\<close>. \<open>NonFinite\<close> is therefore no exception of the source: it
  marks the inputs at which the real-valued reading has no value, and the float that the
  program returns there is not described. The option type is the string the caller passes.
  The defaults of the source (\<^verbatim>\<open>dividend_yield=0\<close>, \<^verbatim>\<open>threshold=0.01\<close>) are passed explicitly. The
  Greeks are returned as the source's dictionary, a map from the five keys to their values.

  Two refinements follow the real-valued embedding. The functions with the suffix \<open>_py\<close> add
  the exception that depends on the range of doubles: \<^verbatim>\<open>volatility**2\<close> raises
  \<^verbatim>\<open>OverflowError\<close>. The classifier with the suffix \<open>_double\<close> computes as the source does, in
  IEEE 754 binary64 with rounding to nearest, ties to even.
\<close>

datatype py_error = ZeroDivisionError | OverflowError | NonFinite

definition bs_d1 :: "real \<Rightarrow> real \<Rightarrow> real \<Rightarrow> real \<Rightarrow> real \<Rightarrow> real \<Rightarrow> real" where
  "bs_d1 spot strike time_to_expiry volatility risk_free_rate dividend_yield =
     (ln (spot / strike)
        + (risk_free_rate - dividend_yield + 0.5 * volatility\<^sup>2) * time_to_expiry)
       / (volatility * sqrt time_to_expiry)"

definition bs_d2 :: "real \<Rightarrow> real \<Rightarrow> real \<Rightarrow> real \<Rightarrow> real \<Rightarrow> real \<Rightarrow> real" where
  "bs_d2 spot strike time_to_expiry volatility risk_free_rate dividend_yield =
     bs_d1 spot strike time_to_expiry volatility risk_free_rate dividend_yield
       - volatility * sqrt time_to_expiry"

definition d1_d2_fault :: "real \<Rightarrow> real \<Rightarrow> real \<Rightarrow> real \<Rightarrow> py_error option" where
  \<comment> \<open>what goes wrong in the two lines that compute \<open>d1\<close> and \<open>d2\<close>, in evaluation order\<close>
  "d1_d2_fault spot strike time_to_expiry volatility =
     (if strike = 0 then Some ZeroDivisionError
      else if spot / strike \<le> 0 then Some NonFinite
      else if volatility * sqrt time_to_expiry = 0 then Some NonFinite
      else None)"

definition calculate_option_price ::
  "string \<Rightarrow> real \<Rightarrow> real \<Rightarrow> real \<Rightarrow> real \<Rightarrow> real \<Rightarrow> real \<Rightarrow> py_error + real" where
  "calculate_option_price option_type spot strike time_to_expiry volatility risk_free_rate
       dividend_yield =
     (if time_to_expiry \<le> 0 then
        (if option_type = ''call'' then Inr (max 0 (spot - strike))
         else Inr (max 0 (strike - spot)))
      else
        (case d1_d2_fault spot strike time_to_expiry volatility of
           Some e \<Rightarrow> Inl e
         | None \<Rightarrow>
            (let d1 = bs_d1 spot strike time_to_expiry volatility risk_free_rate dividend_yield;
                 d2 = d1 - volatility * sqrt time_to_expiry
             in if option_type = ''call'' then
                  Inr (spot * exp (- dividend_yield * time_to_expiry) * norm_cdf d1
                       - strike * exp (- risk_free_rate * time_to_expiry) * norm_cdf d2)
                else
                  Inr (strike * exp (- risk_free_rate * time_to_expiry) * norm_cdf (- d2)
                       - spot * exp (- dividend_yield * time_to_expiry) * norm_cdf (- d1)))))"

definition calculate_option_greeks ::
  "string \<Rightarrow> real \<Rightarrow> real \<Rightarrow> real \<Rightarrow> real \<Rightarrow> real \<Rightarrow> real \<Rightarrow> py_error + (string \<rightharpoonup> real)" where
  "calculate_option_greeks option_type spot strike time_to_expiry volatility risk_free_rate
       dividend_yield =
     (if time_to_expiry \<le> 0 then
        Inr [''delta'' \<mapsto> 0, ''gamma'' \<mapsto> 0, ''theta'' \<mapsto> 0, ''vega'' \<mapsto> 0, ''rho'' \<mapsto> 0]
      else
        (case d1_d2_fault spot strike time_to_expiry volatility of
           Some e \<Rightarrow> Inl e
         | None \<Rightarrow>
            (let d1 = bs_d1 spot strike time_to_expiry volatility risk_free_rate dividend_yield;
                 d2 = d1 - volatility * sqrt time_to_expiry;
                 n_d1 = norm_pdf d1;
                 delta =
                   (if option_type = ''call'' then
                      exp (- dividend_yield * time_to_expiry) * norm_cdf d1
                    else exp (- dividend_yield * time_to_expiry) * (norm_cdf d1 - 1));
                 gamma =
                   exp (- dividend_yield * time_to_expiry) * n_d1
                     / (spot * volatility * sqrt time_to_expiry);
                 vega =
                   0.01 * spot * exp (- dividend_yield * time_to_expiry) * n_d1
                     * sqrt time_to_expiry;
                 theta =
                   (if option_type = ''call'' then
                      - exp (- dividend_yield * time_to_expiry) * spot * n_d1 * volatility
                          / (2 * sqrt time_to_expiry)
                        - risk_free_rate * strike * exp (- risk_free_rate * time_to_expiry)
                            * norm_cdf d2
                        + dividend_yield * spot * exp (- dividend_yield * time_to_expiry)
                            * norm_cdf d1
                    else
                      - exp (- dividend_yield * time_to_expiry) * spot * n_d1 * volatility
                          / (2 * sqrt time_to_expiry)
                        + risk_free_rate * strike * exp (- risk_free_rate * time_to_expiry)
                            * norm_cdf (- d2)
                        - dividend_yield * spot * exp (- dividend_yield * time_to_expiry)
                            * norm_cdf (- d1));
                 theta_daily = theta / 365;
                 rho =
                   (if option_type = ''call'' then
                      0.01 * strike * time_to_expiry * exp (- risk_free_rate * time_to_expiry)
                        * norm_cdf d2
                    else
                      - 0.01 * strike * time_to_expiry * exp (- risk_free_rate * time_to_expiry)
                        * norm_cdf (- d2))
             in Inr [''delta'' \<mapsto> delta, ''gamma'' \<mapsto> gamma, ''theta'' \<mapsto> theta_daily,
                     ''vega'' \<mapsto> vega, ''rho'' \<mapsto> rho])))"

definition is_itm_atm_otm :: "string \<Rightarrow> real \<Rightarrow> real \<Rightarrow> real \<Rightarrow> py_error + string" where
  "is_itm_atm_otm option_type spot strike threshold =
     (if strike = 0 then Inl ZeroDivisionError
      else
        (let pct_diff = \<bar>spot - strike\<bar> / strike
         in if pct_diff \<le> threshold then Inr ''ATM''
            else if option_type = ''call'' then
              (if spot > strike then Inr ''ITM'' else Inr ''OTM'')
            else
              (if spot < strike then Inr ''ITM'' else Inr ''OTM'')))"

text \<open>
  The closed forms of the Black-Scholes-Merton model as the specification states them: the
  value of a European call and of a European put on an asset that pays a continuous dividend
  yield. They are not functions of the source; the prices computed by
  \<open>calculate_option_price\<close> are compared with them.
\<close>

definition bsm_call :: "real \<Rightarrow> real \<Rightarrow> real \<Rightarrow> real \<Rightarrow> real \<Rightarrow> real \<Rightarrow> real" where
  "bsm_call spot strike time_to_expiry volatility risk_free_rate dividend_yield =
     spot * exp (- dividend_yield * time_to_expiry)
         * norm_cdf (bs_d1 spot strike time_to_expiry volatility risk_free_rate dividend_yield)
       - strike * exp (- risk_free_rate * time_to_expiry)
         * norm_cdf (bs_d2 spot strike time_to_expiry volatility risk_free_rate dividend_yield)"

definition bsm_put :: "real \<Rightarrow> real \<Rightarrow> real \<Rightarrow> real \<Rightarrow> real \<Rightarrow> real \<Rightarrow> real" where
  "bsm_put spot strike time_to_expiry volatility risk_free_rate dividend_yield =
     strike * exp (- risk_free_rate * time_to_expiry)
         * norm_cdf (- bs_d2 spot strike time_to_expiry volatility risk_free_rate dividend_yield)
       - spot * exp (- dividend_yield * time_to_expiry)
         * norm_cdf (- bs_d1 spot strike time_to_expiry volatility risk_free_rate dividend_yield)"

section \<open>The exception of the float power\<close>

text \<open>
  Python's \<^verbatim>\<open>**\<close> on floats raises \<^verbatim>\<open>OverflowError\<close> when the result is beyond the largest
  double. For a double \<open>v\<close> the square overflows exactly when \<open>\<bar>v\<bar> \<ge> 2 ^ 512\<close>: the square of
  the largest double below \<open>2 ^ 512\<close> is still a finite double. In the two lines that compute
  \<open>d1\<close> the quotient \<^verbatim>\<open>spot / strike\<close> is evaluated first, so a zero strike raises before the
  power is reached. Float multiplication, division and subtraction do not raise on overflow.
\<close>

definition float_pow2_overflows :: "real \<Rightarrow> bool" where
  "float_pow2_overflows v \<longleftrightarrow> \<bar>v\<bar> \<ge> 2 ^ 512"

definition calculate_option_price_py ::
  "string \<Rightarrow> real \<Rightarrow> real \<Rightarrow> real \<Rightarrow> real \<Rightarrow> real \<Rightarrow> real \<Rightarrow> py_error + real" where
  "calculate_option_price_py option_type spot strike time_to_expiry volatility risk_free_rate
       dividend_yield =
     (if time_to_expiry \<le> 0 then
        calculate_option_price option_type spot strike time_to_expiry volatility risk_free_rate
          dividend_yield
      else if strike = 0 then Inl ZeroDivisionError
      else if float_pow2_overflows volatility then Inl OverflowError
      else
        calculate_option_price option_type spot strike time_to_expiry volatility risk_free_rate
          dividend_yield)"

definition calculate_option_greeks_py ::
  "string \<Rightarrow> real \<Rightarrow> real \<Rightarrow> real \<Rightarrow> real \<Rightarrow> real \<Rightarrow> real \<Rightarrow> py_error + (string \<rightharpoonup> real)" where
  "calculate_option_greeks_py option_type spot strike time_to_expiry volatility risk_free_rate
       dividend_yield =
     (if time_to_expiry \<le> 0 then
        calculate_option_greeks option_type spot strike time_to_expiry volatility risk_free_rate
          dividend_yield
      else if strike = 0 then Inl ZeroDivisionError
      else if float_pow2_overflows volatility then Inl OverflowError
      else
        calculate_option_greeks option_type spot strike time_to_expiry volatility risk_free_rate
          dividend_yield)"

section \<open>Double arithmetic\<close>

text \<open>
  The moneyness classifier uses only subtraction, absolute value, division and comparisons,
  which IEEE 754 specifies exactly. \<open>round_double\<close> rounds a real to the nearest binary64
  number, ties to even, with gradual underflow (below \<open>2 powr - 1022\<close> the spacing stays
  \<open>2 powr - 1074\<close>); \<open>to_double\<close> adds the overflow to an infinity. A float is a finite real
  or an infinity; no \<^verbatim>\<open>nan\<close> can arise in the classifier from finite arguments and a non-zero
  strike. \<open>is_itm_atm_otm_double\<close> is \<^verbatim>\<open>is_itm_atm_otm\<close> with these operations.
\<close>

datatype py_float = Finite real | PosInf | NegInf

definition round_half_even :: "real \<Rightarrow> int" where
  "round_half_even y =
     (let f = \<lfloor>y\<rfloor>
      in if y - of_int f < 1 / 2 then f
         else if y - of_int f > 1 / 2 then f + 1
         else if even f then f else f + 1)"

definition double_ulp :: "real \<Rightarrow> real" where
  "double_ulp x = 2 powr (of_int (max \<lfloor>log 2 \<bar>x\<bar>\<rfloor> (- 1022)) - 52)"

definition round_double :: "real \<Rightarrow> real" where
  "round_double x =
     (if x = 0 then 0 else of_int (round_half_even (x / double_ulp x)) * double_ulp x)"

definition to_double :: "real \<Rightarrow> py_float" where
  "to_double x =
     (let y = round_double x
      in if y \<ge> 2 ^ 1024 then PosInf else if y \<le> - (2 ^ 1024) then NegInf else Finite y)"

definition float_sub :: "real \<Rightarrow> real \<Rightarrow> py_float" where
  "float_sub a b = to_double (a - b)"

fun float_abs :: "py_float \<Rightarrow> py_float" where
  "float_abs (Finite x) = Finite \<bar>x\<bar>"
| "float_abs PosInf = PosInf"
| "float_abs NegInf = PosInf"

fun float_div :: "py_float \<Rightarrow> real \<Rightarrow> py_float" where
  "float_div (Finite x) k = to_double (x / k)"
| "float_div PosInf k = (if k > 0 then PosInf else NegInf)"
| "float_div NegInf k = (if k > 0 then NegInf else PosInf)"

fun float_le :: "py_float \<Rightarrow> real \<Rightarrow> bool" where
  "float_le (Finite x) t = (x \<le> t)"
| "float_le PosInf t = False"
| "float_le NegInf t = True"

definition pct_diff_double :: "real \<Rightarrow> real \<Rightarrow> py_float" where
  "pct_diff_double spot strike = float_div (float_abs (float_sub spot strike)) strike"

definition is_itm_atm_otm_double :: "string \<Rightarrow> real \<Rightarrow> real \<Rightarrow> real \<Rightarrow> py_error + string" where
  "is_itm_atm_otm_double option_type spot strike threshold =
     (if strike = 0 then Inl ZeroDivisionError
      else
        (let pct_diff = float_div (float_abs (float_sub spot strike)) strike
         in if float_le pct_diff threshold then Inr ''ATM''
            else if option_type = ''call'' then
              (if spot > strike then Inr ''ITM'' else Inr ''OTM'')
            else
              (if spot < strike then Inr ''ITM'' else Inr ''OTM'')))"

section \<open>Wallis integrals\<close>

text \<open>
  \<open>wallis n\<close> is the antiderivative of \<open>cos t ^ n\<close> that vanishes at 0, obtained by
  integration by parts; \<open>wallis_val n\<close> is its value at \<open>pi / 2\<close>. They serve to
  evaluate the Gaussian integral, which fixes the limits of \<open>norm_cdf\<close>.
\<close>

fun wallis :: "nat \<Rightarrow> real \<Rightarrow> real" where
  "wallis 0 t = t"
| "wallis (Suc 0) t = sin t"
| "wallis (Suc (Suc n)) t =
     (cos t ^ Suc n * sin t + real (Suc n) * wallis n t) / real (Suc (Suc n))"

definition wallis_val :: "nat \<Rightarrow> real" where
  "wallis_val n = wallis n (pi / 2)"

section \<open>The antiderivative of the Gaussian\<close>

lemma gauss_term_summable:
  fixes y :: real
  shows "summable (\<lambda>n. (- 1) ^ n * y ^ (2 * n + 1) / (fact n * real (2 * n + 1)))"
proof (rule summable_comparison_test')
  show "summable (\<lambda>n. \<bar>y\<bar> * ((y\<^sup>2) ^ n /\<^sub>R fact n))"
    by (intro summable_mult summable_exp_generic)
  fix n :: nat
  have "norm ((- 1) ^ n * y ^ (2 * n + 1) / (fact n * real (2 * n + 1)))
          = \<bar>y\<bar> ^ (2 * n + 1) / (fact n * real (2 * n + 1))"
    by (simp add: abs_mult power_abs)
  also have "\<dots> \<le> \<bar>y\<bar> ^ (2 * n + 1) / (fact n * 1)"
    by (intro divide_left_mono mult_left_mono) simp_all
  also have "\<dots> = \<bar>y\<bar> * ((y\<^sup>2) ^ n /\<^sub>R fact n)"
  proof -
    have "\<bar>y\<bar> ^ (2 * n + 1) = \<bar>y\<bar> * (\<bar>y\<bar>\<^sup>2) ^ n"
      by (simp add: power_mult)
    then show ?thesis by (simp add: divide_inverse mult.commute)
  qed
  finally show "norm ((- 1) ^ n * y ^ (2 * n + 1) / (fact n * real (2 * n + 1)))
          \<le> \<bar>y\<bar> * ((y\<^sup>2) ^ n /\<^sub>R fact n)" .
qed

lemma gauss_coeff_term:
  "gauss_coeff k * y ^ k =
     (if even k then 0
      else (- 1) ^ ((k - 1) div 2) * y ^ (2 * ((k - 1) div 2) + 1)
             / (fact ((k - 1) div 2) * real (2 * ((k - 1) div 2) + 1)))"
proof (cases "even k")
  case True
  then show ?thesis by (simp add: gauss_coeff_def)
next
  case False
  then obtain m where "k = 2 * m + 1" by (rule oddE)
  then have "2 * ((k - 1) div 2) + 1 = k" by simp
  then show ?thesis using False by (simp add: gauss_coeff_def)
qed

lemma gauss_coeff_summable: "summable (\<lambda>k. gauss_coeff k * y ^ k)"
proof -
  have "(\<lambda>n. (- 1) ^ n * y ^ (2 * n + 1) / (fact n * real (2 * n + 1)))
          sums (\<Sum>n. (- 1) ^ n * y ^ (2 * n + 1) / (fact n * real (2 * n + 1)))"
    using gauss_term_summable by (rule summable_sums)
  from sums_if' [OF this] show ?thesis
    unfolding gauss_coeff_term [symmetric] by (rule sums_summable)
qed

lemma gauss_int_series:
  "gauss_int x = (\<Sum>n. (- 1) ^ n * x ^ (2 * n + 1) / (fact n * real (2 * n + 1)))"
proof -
  have "(\<lambda>n. (- 1) ^ n * x ^ (2 * n + 1) / (fact n * real (2 * n + 1)))
          sums (\<Sum>n. (- 1) ^ n * x ^ (2 * n + 1) / (fact n * real (2 * n + 1)))"
    using gauss_term_summable by (rule summable_sums)
  from sums_if' [OF this] show ?thesis
    unfolding gauss_coeff_term [symmetric] gauss_int_def by (rule sums_unique [symmetric])
qed

lemma erf_series:
  "erf x = 2 / sqrt pi * (\<Sum>n. (- 1) ^ n * x ^ (2 * n + 1) / (fact n * real (2 * n + 1)))"
  by (simp only: erf_def gauss_int_series)

lemma diffs_gauss_coeff:
  "diffs gauss_coeff k = (if even k then (- 1) ^ (k div 2) / fact (k div 2) else 0)"
  by (simp add: diffs_def gauss_coeff_def del: of_nat_Suc)

lemma diffs_gauss_sums: "(\<lambda>k. diffs gauss_coeff k * x ^ k) sums exp (- (x\<^sup>2))"
proof -
  have f: "(\<lambda>n. (- (x\<^sup>2)) ^ n /\<^sub>R fact n) sums exp (- (x\<^sup>2))"
    by (rule exp_converges)
  have z: "(\<lambda>n::nat. 0::real) sums 0" by simp
  have "(\<lambda>k. if even k then (- (x\<^sup>2)) ^ (k div 2) /\<^sub>R fact (k div 2) else 0)
          sums (0 + exp (- (x\<^sup>2)))"
    using sums_if [OF z f] by simp
  moreover have "(if even k then (- (x\<^sup>2)) ^ (k div 2) /\<^sub>R fact (k div 2) else 0)
      = diffs gauss_coeff k * x ^ k" for k
  proof (cases "even k")
    case True
    then have k: "2 * (k div 2) = k" by simp
    have "(- (x\<^sup>2)) ^ (k div 2) = (- 1) ^ (k div 2) * x ^ (2 * (k div 2))"
      by (simp add: power_minus [of "x\<^sup>2"] power_mult)
    then show ?thesis using True k by (simp add: diffs_gauss_coeff divide_inverse mult.commute)
  next
    case False
    then show ?thesis by (simp add: diffs_gauss_coeff)
  qed
  ultimately show ?thesis by simp
qed

lemma DERIV_gauss_int: "DERIV gauss_int x :> exp (- (x\<^sup>2))"
proof -
  have "DERIV (\<lambda>x. \<Sum>k. gauss_coeff k * x ^ k) x :> (\<Sum>k. diffs gauss_coeff k * x ^ k)"
    by (rule termdiffs_strong_converges_everywhere) (rule gauss_coeff_summable)
  moreover have "(\<Sum>k. diffs gauss_coeff k * x ^ k) = exp (- (x\<^sup>2))"
    using diffs_gauss_sums by (rule sums_unique [symmetric])
  moreover have "gauss_int = (\<lambda>x. \<Sum>k. gauss_coeff k * x ^ k)"
    by (rule ext) (simp add: gauss_int_def)
  ultimately show ?thesis by simp
qed

lemma gauss_int_0: "gauss_int 0 = 0"
proof -
  have "gauss_coeff k * 0 ^ k = 0" for k
  proof (cases k)
    case 0
    then show ?thesis by (simp add: gauss_coeff_def)
  next
    case (Suc m)
    then show ?thesis by simp
  qed
  then have "(\<lambda>k. gauss_coeff k * 0 ^ k) = (\<lambda>k. 0)" by (rule ext)
  then show ?thesis unfolding gauss_int_def by simp
qed

section \<open>Properties of the Wallis integrals\<close>

lemma wallis_at_0: "wallis n 0 = 0"
  by (induction n "0::real" rule: wallis.induct) simp_all

lemma DERIV_wallis: "DERIV (wallis n) t :> cos t ^ n"
proof (induction n t rule: wallis.induct)
  case (1 t)
  have "wallis 0 = (\<lambda>t. t)" by (rule ext) simp
  then show ?case by simp
next
  case (2 t)
  have "wallis (Suc 0) = sin" by (rule ext) simp
  then show ?case by simp
next
  case (3 n t)
  have eq: "wallis (Suc (Suc n)) =
      (\<lambda>t. (cos t ^ Suc n * sin t + real (Suc n) * wallis n t) / real (Suc (Suc n)))"
    by (rule ext) simp
  have "DERIV (\<lambda>t. (cos t ^ Suc n * sin t + real (Suc n) * wallis n t) / real (Suc (Suc n))) t
          :> ((real (Suc n) * cos t ^ n * (- sin t)) * sin t + cos t ^ Suc n * cos t
               + real (Suc n) * cos t ^ n) / real (Suc (Suc n))"
    by (rule derivative_eq_intros DERIV_cos DERIV_sin 3 refl | simp)+
  moreover have "((real (Suc n) * cos t ^ n * (- sin t)) * sin t + cos t ^ Suc n * cos t
               + real (Suc n) * cos t ^ n) / real (Suc (Suc n)) = cos t ^ Suc (Suc n)"
  proof -
    have s: "sin t * sin t = 1 - cos t * cos t"
      using sin_cos_squared_add [of t] by (simp add: power2_eq_square algebra_simps)
    have "(real (Suc n) * cos t ^ n * (- sin t)) * sin t + cos t ^ Suc n * cos t
               + real (Suc n) * cos t ^ n
         = - real (Suc n) * cos t ^ n * (sin t * sin t) + cos t ^ Suc n * cos t
               + real (Suc n) * cos t ^ n"
      by (simp add: algebra_simps)
    also have "\<dots> = real (Suc (Suc n)) * cos t ^ Suc (Suc n)"
      unfolding s by (simp add: algebra_simps)
    finally show ?thesis by simp
  qed
  ultimately show ?case unfolding eq by simp
qed

lemma wallis_val_0: "wallis_val 0 = pi / 2"
  by (simp add: wallis_val_def)

lemma wallis_val_1: "wallis_val (Suc 0) = 1"
  by (simp add: wallis_val_def)

lemma wallis_val_step:
  "wallis_val (Suc (Suc n)) = real (Suc n) / real (Suc (Suc n)) * wallis_val n"
  by (simp add: wallis_val_def)

lemma wallis_val_pos: "0 < wallis_val n"
proof (induction n rule: induct_nat_012)
  case 0
  then show ?case by (simp add: wallis_val_0)
next
  case 1
  then show ?case by (simp add: wallis_val_1)
next
  case (ge2 n)
  then show ?case by (simp add: wallis_val_step del: of_nat_Suc)
qed

lemma wallis_val_product: "real (Suc n) * wallis_val n * wallis_val (Suc n) = pi / 2"
proof (induction n)
  case 0
  then show ?case by (simp add: wallis_val_0 wallis_val_1)
next
  case (Suc n)
  have step: "real (Suc (Suc n)) * wallis_val (Suc (Suc n)) = real (Suc n) * wallis_val n"
    by (simp add: wallis_val_step del: of_nat_Suc)
  have "real (Suc (Suc n)) * wallis_val (Suc n) * wallis_val (Suc (Suc n))
      = wallis_val (Suc n) * (real (Suc (Suc n)) * wallis_val (Suc (Suc n)))"
    by (simp only: mult_ac)
  also have "\<dots> = real (Suc n) * wallis_val n * wallis_val (Suc n)"
    unfolding step by (simp only: mult_ac)
  finally show ?case using Suc by (simp only:)
qed

lemma wallis_mono_arg:
  assumes "0 \<le> s" "s \<le> t" "t \<le> pi / 2"
  shows "wallis n s \<le> wallis n t"
proof (rule DERIV_nonneg_imp_nondecreasing [OF assms(2)])
  fix x assume "s \<le> x" "x \<le> t"
  then have "0 \<le> cos x" using assms by (intro cos_ge_zero) linarith+
  then have "0 \<le> cos x ^ n" by simp
  then show "\<exists>y. DERIV (wallis n) x :> y \<and> 0 \<le> y"
    using DERIV_wallis by blast
qed

lemma wallis_val_antimono: "wallis_val (Suc n) \<le> wallis_val n"
proof -
  have "wallis n 0 - wallis (Suc n) 0 \<le> wallis n (pi / 2) - wallis (Suc n) (pi / 2)"
  proof (rule DERIV_nonneg_imp_nondecreasing [where f = "\<lambda>t. wallis n t - wallis (Suc n) t"])
    show "0 \<le> pi / 2" by simp
    fix x :: real assume x: "0 \<le> x" "x \<le> pi / 2"
    then have c: "0 \<le> cos x" by (intro cos_ge_zero) linarith+
    have "DERIV (\<lambda>t. wallis n t - wallis (Suc n) t) x :> cos x ^ n - cos x ^ Suc n"
      by (intro DERIV_diff DERIV_wallis)
    moreover have "cos x ^ n - cos x ^ Suc n = cos x ^ n * (1 - cos x)"
      by (simp add: algebra_simps)
    moreover have "0 \<le> cos x ^ n * (1 - cos x)"
      using c by (intro mult_nonneg_nonneg) simp_all
    ultimately show "\<exists>y. DERIV (\<lambda>t. wallis n t - wallis (Suc n) t) x :> y \<and> 0 \<le> y"
      by auto
  qed
  then show ?thesis by (simp add: wallis_val_def wallis_at_0)
qed

section \<open>Comparing the Gaussian with powers of the cosine\<close>

lemma cos_power_le_exp: "cos t ^ (2 * n) \<le> exp (- (real n * (sin t)\<^sup>2))"
proof -
  have "1 + (- ((sin t)\<^sup>2)) \<le> exp (- ((sin t)\<^sup>2))"
    by (rule exp_ge_add_one_self)
  moreover have "(cos t)\<^sup>2 = 1 + (- ((sin t)\<^sup>2))"
    by (simp add: cos_squared_eq)
  ultimately have "(cos t)\<^sup>2 \<le> exp (- ((sin t)\<^sup>2))" by simp
  then have "((cos t)\<^sup>2) ^ n \<le> exp (- ((sin t)\<^sup>2)) ^ n"
    by (intro power_mono) simp_all
  moreover have "exp (- ((sin t)\<^sup>2)) ^ n = exp (- (real n * (sin t)\<^sup>2))"
    using exp_of_nat_mult [of n "- ((sin t)\<^sup>2)"] by simp
  ultimately show ?thesis by (simp add: power_mult)
qed

lemma gauss_int_lower: "sqrt (real n) * wallis_val (2 * n + 1) \<le> gauss_int (sqrt (real n))"
proof -
  let ?c = "sqrt (real n)"
  let ?f = "\<lambda>t. gauss_int (?c * sin t) - ?c * wallis (2 * n + 1) t"
  have "?f 0 \<le> ?f (pi / 2)"
  proof (rule DERIV_nonneg_imp_nondecreasing [where f = ?f])
    show "0 \<le> pi / 2" by simp
    fix x :: real assume x: "0 \<le> x" "x \<le> pi / 2"
    then have c: "0 \<le> cos x" by (intro cos_ge_zero) linarith+
    have "DERIV ?f x :> exp (- ((?c * sin x)\<^sup>2)) * (?c * cos x) - ?c * cos x ^ (2 * n + 1)"
      by (rule derivative_eq_intros DERIV_gauss_int [THEN DERIV_chain2] DERIV_wallis refl
            | simp)+
    moreover have "exp (- ((?c * sin x)\<^sup>2)) * (?c * cos x) - ?c * cos x ^ (2 * n + 1)
        = ?c * cos x * (exp (- (real n * (sin x)\<^sup>2)) - cos x ^ (2 * n))"
      by (simp add: power_mult_distrib algebra_simps)
    moreover have "0 \<le> ?c * cos x * (exp (- (real n * (sin x)\<^sup>2)) - cos x ^ (2 * n))"
      using c cos_power_le_exp [of x n] by (intro mult_nonneg_nonneg) simp_all
    ultimately show "\<exists>y. DERIV ?f x :> y \<and> 0 \<le> y" by auto
  qed
  then show ?thesis by (simp add: gauss_int_0 wallis_at_0 wallis_val_def)
qed

lemma exp_tan_le_cos:
  assumes "0 < cos t"
  shows "exp (- (real (Suc n) * (tan t)\<^sup>2)) * inverse ((cos t)\<^sup>2) \<le> cos t ^ (2 * n)"
proof -
  have "1 + (tan t)\<^sup>2 \<le> exp ((tan t)\<^sup>2)"
    by (rule exp_ge_add_one_self)
  moreover have "1 + (tan t)\<^sup>2 = inverse ((cos t)\<^sup>2)"
    using assms tan_sec [of t] by (simp add: power_inverse)
  ultimately have "inverse ((cos t)\<^sup>2) \<le> exp ((tan t)\<^sup>2)" by simp
  then have "inverse (exp ((tan t)\<^sup>2)) \<le> inverse (inverse ((cos t)\<^sup>2))"
    using assms by (intro le_imp_inverse_le) simp_all
  then have "exp (- ((tan t)\<^sup>2)) \<le> (cos t)\<^sup>2"
    by (simp add: exp_minus)
  then have "exp (- ((tan t)\<^sup>2)) ^ Suc n \<le> ((cos t)\<^sup>2) ^ Suc n"
    by (intro power_mono) simp_all
  moreover have "exp (- ((tan t)\<^sup>2)) ^ Suc n = exp (- (real (Suc n) * (tan t)\<^sup>2))"
    using exp_of_nat_mult [of "Suc n" "- ((tan t)\<^sup>2)"] by simp
  ultimately have "exp (- (real (Suc n) * (tan t)\<^sup>2)) \<le> ((cos t)\<^sup>2) ^ Suc n" by simp
  then have "exp (- (real (Suc n) * (tan t)\<^sup>2)) * inverse ((cos t)\<^sup>2)
      \<le> ((cos t)\<^sup>2) ^ Suc n * inverse ((cos t)\<^sup>2)"
    by (intro mult_right_mono) simp_all
  moreover have "((cos t)\<^sup>2) ^ Suc n * inverse ((cos t)\<^sup>2) = cos t ^ (2 * n)"
    using assms by (simp add: power_mult)
  ultimately show ?thesis by simp
qed

lemma gauss_int_tan_upper:
  assumes "0 \<le> t" "t < pi / 2"
  shows "gauss_int (sqrt (real (Suc n)) * tan t) \<le> sqrt (real (Suc n)) * wallis (2 * n) t"
proof -
  let ?c = "sqrt (real (Suc n))"
  let ?f = "\<lambda>t. ?c * wallis (2 * n) t - gauss_int (?c * tan t)"
  have "?f 0 \<le> ?f t"
  proof (rule DERIV_nonneg_imp_nondecreasing [where f = ?f, OF assms(1)])
    fix x :: real assume x: "0 \<le> x" "x \<le> t"
    then have c: "0 < cos x" using assms by (intro cos_gt_zero_pi) linarith+
    then have c0: "cos x \<noteq> 0" by simp
    have "DERIV ?f x :> ?c * cos x ^ (2 * n)
            - exp (- ((?c * tan x)\<^sup>2)) * (?c * inverse ((cos x)\<^sup>2))"
      by (rule derivative_eq_intros DERIV_gauss_int [THEN DERIV_chain2] DERIV_wallis
            DERIV_tan c0 refl | simp)+
    moreover have "?c * cos x ^ (2 * n)
            - exp (- ((?c * tan x)\<^sup>2)) * (?c * inverse ((cos x)\<^sup>2))
        = ?c * (cos x ^ (2 * n)
            - exp (- (real (Suc n) * (tan x)\<^sup>2)) * inverse ((cos x)\<^sup>2))"
      by (simp add: power_mult_distrib algebra_simps del: of_nat_Suc)
    moreover have "0 \<le> ?c * (cos x ^ (2 * n)
            - exp (- (real (Suc n) * (tan x)\<^sup>2)) * inverse ((cos x)\<^sup>2))"
      using exp_tan_le_cos [OF c, of n] by (intro mult_nonneg_nonneg) simp_all
    ultimately show "\<exists>y. DERIV ?f x :> y \<and> 0 \<le> y" by auto
  qed
  then show ?thesis by (simp add: gauss_int_0 wallis_at_0)
qed

lemma gauss_int_upper:
  assumes "0 \<le> y"
  shows "gauss_int y \<le> sqrt (real (Suc n)) * wallis_val (2 * n)"
proof -
  let ?c = "sqrt (real (Suc n))"
  define t where "t = arctan (y / ?c)"
  have c: "0 < ?c" by simp
  have t: "0 \<le> t" "t < pi / 2"
    using assms c arctan_ubound [of "y / ?c"] by (simp_all add: t_def)
  have "tan t = y / ?c" unfolding t_def by (rule tan_arctan)
  then have "?c * tan t = y" using c by simp
  then have "gauss_int y \<le> ?c * wallis (2 * n) t"
    using gauss_int_tan_upper [OF t, of n] by simp
  also have "\<dots> \<le> ?c * wallis (2 * n) (pi / 2)"
    using t by (intro mult_left_mono wallis_mono_arg) simp_all
  finally show ?thesis by (simp add: wallis_val_def)
qed

lemma gauss_int_mono:
  assumes "x \<le> y"
  shows "gauss_int x \<le> gauss_int y"
proof (rule DERIV_nonneg_imp_nondecreasing [OF assms])
  fix t :: real
  show "\<exists>d. DERIV gauss_int t :> d \<and> 0 \<le> d"
    using DERIV_gauss_int [of t] by (intro exI [of _ "exp (- (t\<^sup>2))"]) simp
qed

lemma gauss_int_nonneg: "0 \<le> y \<Longrightarrow> 0 \<le> gauss_int y"
  using gauss_int_mono [of 0 y] by (simp add: gauss_int_0)

lemma gauss_int_odd: "gauss_int (- x) = - gauss_int x"
proof -
  have "DERIV (\<lambda>x. gauss_int x + gauss_int (- x)) t :> 0" for t
  proof -
    have "DERIV (\<lambda>x. gauss_int x + gauss_int (- x)) t
            :> exp (- (t\<^sup>2)) + exp (- ((- t)\<^sup>2)) * (- 1)"
      by (rule derivative_eq_intros DERIV_gauss_int DERIV_gauss_int [THEN DERIV_chain2] refl
            | simp)+
    then show ?thesis by simp
  qed
  then have "gauss_int x + gauss_int (- x) = gauss_int 0 + gauss_int (- 0)"
    by (intro DERIV_isconst_all [where f = "\<lambda>x. gauss_int x + gauss_int (- x)"]) blast
  then show ?thesis by (simp add: gauss_int_0)
qed

section \<open>The Gaussian integral\<close>

lemma wallis_val_even_sq: "(wallis_val (2 * Suc m))\<^sup>2 \<le> pi / (4 * real (Suc m))"
proof -
  have a: "wallis_val (Suc (2 * m + 1)) \<le> wallis_val (2 * m + 1)"
    by (rule wallis_val_antimono)
  have p: "real (Suc (2 * m + 1)) * wallis_val (2 * m + 1) * wallis_val (Suc (2 * m + 1)) = pi / 2"
    by (rule wallis_val_product)
  have e: "Suc (2 * m + 1) = 2 * Suc m" by simp
  have "(wallis_val (2 * Suc m))\<^sup>2 \<le> wallis_val (2 * m + 1) * wallis_val (2 * Suc m)"
    unfolding power2_eq_square using a wallis_val_pos [of "2 * Suc m"]
    by (intro mult_right_mono) (simp_all only: e)
  also have "\<dots> = pi / (4 * real (Suc m))"
  proof -
    have "real (2 * Suc m) * (wallis_val (2 * m + 1) * wallis_val (2 * Suc m)) = pi / 2"
      using p by (simp only: e mult.assoc)
    moreover have "real (2 * Suc m) = 2 * real (Suc m)" by simp
    ultimately have "2 * real (Suc m) * (wallis_val (2 * m + 1) * wallis_val (2 * Suc m)) = pi / 2"
      by (simp only:)
    then show ?thesis by (simp add: field_simps del: of_nat_Suc)
  qed
  finally show ?thesis .
qed

lemma wallis_val_odd_sq: "pi / (4 * real (Suc n)) \<le> (wallis_val (2 * n + 1))\<^sup>2"
proof -
  have a: "wallis_val (Suc (2 * n + 1)) \<le> wallis_val (2 * n + 1)"
    by (rule wallis_val_antimono)
  have p: "real (Suc (2 * n + 1)) * wallis_val (2 * n + 1) * wallis_val (Suc (2 * n + 1)) = pi / 2"
    by (rule wallis_val_product)
  have r: "real (Suc (2 * n + 1)) = 2 * real (Suc n)" by simp
  have "2 * real (Suc n) * (wallis_val (2 * n + 1) * wallis_val (Suc (2 * n + 1))) = pi / 2"
    using p by (simp only: r mult.assoc)
  then have "pi / (4 * real (Suc n)) = wallis_val (2 * n + 1) * wallis_val (Suc (2 * n + 1))"
    by (simp add: field_simps del: of_nat_Suc)
  also have "\<dots> \<le> wallis_val (2 * n + 1) * wallis_val (2 * n + 1)"
    using a wallis_val_pos [of "2 * n + 1"] by (intro mult_left_mono) simp_all
  finally show ?thesis by (simp only: power2_eq_square)
qed

lemma gauss_int_sq_upper:
  assumes "0 \<le> y"
  shows "(gauss_int y)\<^sup>2 \<le> pi / 4 + pi / (4 * real (Suc m))"
proof -
  have "(gauss_int y)\<^sup>2 \<le> (sqrt (real (Suc (Suc m))) * wallis_val (2 * Suc m))\<^sup>2"
    using gauss_int_upper [OF assms, of "Suc m"] gauss_int_nonneg [OF assms]
    by (intro power_mono) simp_all
  also have "\<dots> = real (Suc (Suc m)) * (wallis_val (2 * Suc m))\<^sup>2"
    by (simp add: power_mult_distrib del: of_nat_Suc)
  also have "\<dots> \<le> real (Suc (Suc m)) * (pi / (4 * real (Suc m)))"
    by (intro mult_left_mono wallis_val_even_sq) simp
  also have "\<dots> = pi / 4 + pi / (4 * real (Suc m))"
    by (simp add: field_simps)
  finally show ?thesis .
qed

lemma quarter_over_nat_small:
  fixes c p :: real
  assumes "0 < c"
  shows "\<exists>n::nat. p / (4 * real (Suc n)) < c"
proof -
  obtain n :: nat where "p / (4 * c) < real n"
    using reals_Archimedean2 by blast
  then have "p / (4 * c) < real (Suc n)" by simp
  moreover have c4: "0 < 4 * c" using assms by simp
  ultimately have "p < real (Suc n) * (4 * c)"
    by (simp only: pos_divide_less_eq)
  then have "p < c * (4 * real (Suc n))" by (simp only: mult_ac)
  moreover have "0 < 4 * real (Suc n)" by simp
  ultimately have "p / (4 * real (Suc n)) < c"
    by (simp only: pos_divide_less_eq)
  then show ?thesis by blast
qed

lemma gauss_int_sq_le:
  assumes "0 \<le> y"
  shows "(gauss_int y)\<^sup>2 \<le> pi / 4"
proof (rule ccontr)
  assume "\<not> (gauss_int y)\<^sup>2 \<le> pi / 4"
  then have d: "0 < (gauss_int y)\<^sup>2 - pi / 4" by simp
  obtain m :: nat where "pi / (4 * real (Suc m)) < (gauss_int y)\<^sup>2 - pi / 4"
    using quarter_over_nat_small [OF d] by blast
  with gauss_int_sq_upper [OF assms, of m] show False by simp
qed

lemma gauss_int_le:
  "gauss_int y \<le> sqrt pi / 2"
proof (cases "0 \<le> y")
  case True
  have "gauss_int y \<le> sqrt (pi / 4)"
    using gauss_int_sq_le [OF True] by (rule real_le_rsqrt)
  also have "sqrt (pi / 4) = sqrt pi / 2"
    by (simp add: real_sqrt_divide)
  finally show ?thesis .
next
  case False
  then have "gauss_int y \<le> gauss_int 0" by (intro gauss_int_mono) simp
  also have "\<dots> \<le> sqrt pi / 2" by (simp add: gauss_int_0)
  finally show ?thesis .
qed

lemma gauss_int_ge: "- (sqrt pi / 2) \<le> gauss_int y"
  using gauss_int_le [of "- y"] by (simp add: gauss_int_odd)

lemma gauss_int_sqrt_lower:
  "pi / 4 - pi / (4 * real (Suc n)) \<le> (gauss_int (sqrt (real n)))\<^sup>2"
proof -
  have "pi / 4 - pi / (4 * real (Suc n)) = real n * (pi / (4 * real (Suc n)))"
    by (simp add: field_simps)
  also have "\<dots> \<le> real n * (wallis_val (2 * n + 1))\<^sup>2"
    by (intro mult_left_mono wallis_val_odd_sq) simp
  also have "\<dots> = (sqrt (real n) * wallis_val (2 * n + 1))\<^sup>2"
    by (simp add: power_mult_distrib)
  also have "\<dots> \<le> (gauss_int (sqrt (real n)))\<^sup>2"
    using gauss_int_lower [of n] wallis_val_pos [of "2 * n + 1"]
    by (intro power_mono) simp_all
  finally show ?thesis .
qed

lemma gauss_int_approaches:
  assumes "0 < e"
  shows "\<exists>N. \<forall>x\<ge>N. sqrt pi / 2 - e < gauss_int x"
proof -
  let ?L = "sqrt pi / 2"
  have L: "0 < ?L" by simp
  have L2: "?L\<^sup>2 = pi / 4" by (simp add: power_divide)
  have Le: "0 < ?L * e" using L assms by (rule mult_pos_pos)
  obtain n :: nat where small: "pi / (4 * real (Suc n)) < ?L * e"
    using quarter_over_nat_small [OF Le] by blast
  let ?g = "gauss_int (sqrt (real n))"
  have g0: "0 \<le> ?g" by (intro gauss_int_nonneg) simp
  have "(?L - ?g) * ?L \<le> (?L - ?g) * (?L + ?g)"
    using g0 gauss_int_le [of "sqrt (real n)"] by (intro mult_left_mono) simp_all
  also have "\<dots> = ?L\<^sup>2 - ?g\<^sup>2"
    by (simp add: power2_eq_square algebra_simps)
  also have "\<dots> \<le> pi / (4 * real (Suc n))"
    using gauss_int_sqrt_lower [of n] unfolding L2 by simp
  also have "\<dots> < e * ?L" using small by (simp add: mult.commute)
  finally have "?L - ?g < e" using L by (simp only: mult_less_cancel_right_pos)
  then have "?L - e < gauss_int x" if "sqrt (real n) \<le> x" for x
    using gauss_int_mono [OF that] by simp
  then show ?thesis by blast
qed

section \<open>The normal distribution function\<close>

lemma erf_minus: "erf (- x) = - erf x"
  by (simp add: erf_def gauss_int_odd)

lemma erf_le_1: "erf x \<le> 1"
proof -
  have "2 / sqrt pi * gauss_int x \<le> 2 / sqrt pi * (sqrt pi / 2)"
    by (intro mult_left_mono gauss_int_le) simp
  then show ?thesis by (simp add: erf_def)
qed

lemma erf_ge_minus_1: "- 1 \<le> erf x"
  using erf_le_1 [of "- x"] by (simp add: erf_minus)

lemma erf_mono: "x \<le> y \<Longrightarrow> erf x \<le> erf y"
  unfolding erf_def by (intro mult_left_mono gauss_int_mono) simp_all

lemma erf_approaches:
  assumes "0 < e"
  shows "\<exists>N. \<forall>x\<ge>N. 1 - e < erf x"
proof -
  have "0 < e * (sqrt pi / 2)" using assms by simp
  from gauss_int_approaches [OF this]
  obtain N where N: "\<And>x. N \<le> x \<Longrightarrow> sqrt pi / 2 - e * (sqrt pi / 2) < gauss_int x"
    by blast
  have "1 - e < erf x" if "N \<le> x" for x
  proof -
    have "2 / sqrt pi * (sqrt pi / 2 - e * (sqrt pi / 2)) < 2 / sqrt pi * gauss_int x"
      using N [OF that] by (intro mult_strict_left_mono) simp_all
    moreover have "2 / sqrt pi * (sqrt pi / 2 - e * (sqrt pi / 2)) = 1 - e"
      by (simp add: field_simps)
    ultimately show ?thesis by (simp add: erf_def)
  qed
  then show ?thesis by blast
qed

lemma DERIV_erf: "DERIV erf x :> 2 / sqrt pi * exp (- (x\<^sup>2))"
proof -
  have "erf = (\<lambda>x. 2 / sqrt pi * gauss_int x)" by (rule ext) (simp add: erf_def)
  moreover have "DERIV (\<lambda>x. 2 / sqrt pi * gauss_int x) x :> 2 / sqrt pi * exp (- (x\<^sup>2))"
    by (intro DERIV_cmult DERIV_gauss_int)
  ultimately show ?thesis by simp
qed

lemma norm_cdf_minus: "norm_cdf (- x) = 1 - norm_cdf x"
  by (simp add: norm_cdf_def erf_minus field_simps)

lemma norm_cdf_0: "norm_cdf 0 = 1 / 2"
  by (simp add: norm_cdf_def erf_def gauss_int_0)

lemma norm_cdf_nonneg: "0 \<le> norm_cdf x"
  using erf_ge_minus_1 [of "x / sqrt 2"] by (simp add: norm_cdf_def)

lemma norm_cdf_le_1: "norm_cdf x \<le> 1"
  using erf_le_1 [of "x / sqrt 2"] by (simp add: norm_cdf_def)


lemma DERIV_norm_cdf: "DERIV norm_cdf x :> norm_pdf x"
proof -
  have "norm_cdf = (\<lambda>x. (1 + erf (x / sqrt 2)) / 2)"
    by (rule ext) (simp add: norm_cdf_def)
  moreover have "DERIV (\<lambda>x. (1 + erf (x / sqrt 2)) / 2) x
      :> (0 + 2 / sqrt pi * exp (- ((x / sqrt 2)\<^sup>2)) * (1 / sqrt 2)) / 2"
    by (intro DERIV_cdivide DERIV_add DERIV_const DERIV_chain2 [OF DERIV_erf] DERIV_ident)
  moreover have "(0 + 2 / sqrt pi * exp (- ((x / sqrt 2)\<^sup>2)) * (1 / sqrt 2)) / 2 = norm_pdf x"
  proof -
    have "(x / sqrt 2)\<^sup>2 = x\<^sup>2 / 2" by (simp add: power_divide)
    then show ?thesis by (simp add: norm_pdf_def real_sqrt_mult field_simps)
  qed
  ultimately show ?thesis by simp
qed


lemma norm_cdf_mono: "x \<le> y \<Longrightarrow> norm_cdf x \<le> norm_cdf y"
  unfolding norm_cdf_def by (simp add: erf_mono divide_right_mono)

lemma norm_cdf_small:
  assumes "0 < e"
  shows "\<exists>N. \<forall>x\<le>N. norm_cdf x < e"
proof -
  have "0 < 2 * e" using assms by simp
  from erf_approaches [OF this] obtain N where N: "\<And>x. N \<le> x \<Longrightarrow> 1 - 2 * e < erf x"
    by blast
  have "norm_cdf x < e" if "x \<le> - (N * sqrt 2)" for x
  proof -
    have "N * sqrt 2 \<le> - x" using that by simp
    then have "N \<le> (- x) / sqrt 2" by (subst pos_le_divide_eq) simp_all
    from N [OF this] have "1 - 2 * e < - erf (x / sqrt 2)"
      using erf_minus [of "x / sqrt 2"] by simp
    then show ?thesis by (simp add: norm_cdf_def)
  qed
  then show ?thesis by blast
qed

lemma norm_cdf_at_bot: "(norm_cdf \<longlongrightarrow> 0) at_bot"
proof (rule tendstoI)
  fix e :: real assume "0 < e"
  from norm_cdf_small [OF this] obtain N where "\<forall>x\<le>N. norm_cdf x < e" by blast
  then have "\<forall>x\<le>N. dist (norm_cdf x) 0 < e"
    using norm_cdf_nonneg by (simp add: dist_real_def)
  then show "eventually (\<lambda>x. dist (norm_cdf x) 0 < e) at_bot"
    unfolding eventually_at_bot_linorder by blast
qed

lemma norm_cdf_at_top: "(norm_cdf \<longlongrightarrow> 1) at_top"
proof (rule tendstoI)
  fix e :: real assume "0 < e"
  from norm_cdf_small [OF this] obtain N where N: "\<forall>x\<le>N. norm_cdf x < e" by blast
  have "dist (norm_cdf x) 1 < e" if "- N \<le> x" for x
  proof -
    have "norm_cdf (- x) < e" using N that by simp
    then show ?thesis using norm_cdf_le_1 [of x] by (simp add: norm_cdf_minus dist_real_def)
  qed
  then show "eventually (\<lambda>x. dist (norm_cdf x) 1 < e) at_top"
    unfolding eventually_at_top_linorder by blast
qed

section \<open>The Mills ratio\<close>






section \<open>The Black-Scholes-Merton closed forms\<close>

lemma no_fault:
  assumes "strike > 0" "spot > 0" "T > 0" "vol > 0"
  shows "d1_d2_fault spot strike T vol = None"
proof -
  have "\<not> spot / strike \<le> 0"
    using divide_pos_pos [OF assms(2,1)] by simp
  then show ?thesis using assms(1,3,4) by (simp add: d1_d2_fault_def del: divide_le_0_iff)
qed

lemma price_call_valid:
  assumes "strike > 0" "spot > 0" "T > 0" "vol > 0"
  shows "calculate_option_price ''call'' spot strike T vol r q = Inr (bsm_call spot strike T vol r q)"
  using assms(3) no_fault [OF assms]
  by (simp add: calculate_option_price_def bsm_call_def bs_d2_def Let_def)

lemma price_put_valid:
  assumes "strike > 0" "spot > 0" "T > 0" "vol > 0" "option_type \<noteq> ''call''"
  shows "calculate_option_price option_type spot strike T vol r q
           = Inr (bsm_put spot strike T vol r q)"
  using assms(3,5) no_fault [OF assms(1-4)]
  by (simp add: calculate_option_price_def bsm_put_def bs_d2_def Let_def)






section \<open>Sensitivity to the spot price\<close>







section \<open>The functions with the overflow exception\<close>

lemma price_py_valid:
  assumes "strike > 0" "T > 0" "0 < vol" "vol < 2 ^ 512"
  shows "calculate_option_price_py option_type spot strike T vol r q
           = calculate_option_price option_type spot strike T vol r q"
  using assms by (simp add: calculate_option_price_py_def float_pow2_overflows_def)



lemma greeks_py_expired:
  assumes "T \<le> 0"
  shows "calculate_option_greeks_py option_type spot strike T vol r q
           = calculate_option_greeks option_type spot strike T vol r q"
  using assms by (simp add: calculate_option_greeks_py_def)

lemma unrecognized_type_py:
  assumes "option_type \<noteq> ''call''"
  shows "calculate_option_price_py option_type spot strike T vol r q
           = calculate_option_price_py ''put'' spot strike T vol r q
       \<and> calculate_option_greeks_py option_type spot strike T vol r q
           = calculate_option_greeks_py ''put'' spot strike T vol r q"
  using assms
  by (simp add: calculate_option_price_py_def calculate_option_greeks_py_def
        calculate_option_price_def calculate_option_greeks_def Let_def split: option.splits)

section \<open>Rounding to doubles\<close>

lemma floor_log2_eq:
  assumes "2 powr of_int e \<le> x" and "x < 2 powr (of_int e + 1)"
  shows "\<lfloor>log 2 x\<rfloor> = e"
proof -
  have x: "0 < x" using assms(1) powr_gt_zero [of 2 "of_int e"] by linarith
  have "of_int e \<le> log 2 x" using assms(1) x by (simp add: powr_le_iff)
  moreover have "log 2 x < of_int e + 1" using assms(2) x by (simp add: less_powr_iff)
  ultimately show ?thesis by (simp add: floor_eq_iff)
qed

lemma double_ulp_eq:
  assumes "2 powr of_int e \<le> \<bar>x\<bar>" and "\<bar>x\<bar> < 2 powr (of_int e + 1)" and "- 1022 \<le> e"
  shows "double_ulp x = 2 powr (of_int e - 52)"
  using floor_log2_eq [OF assms(1,2)] assms(3) by (simp add: double_ulp_def max_def)

lemma round_half_even_down:
  assumes "of_int n \<le> y" and "y < of_int n + 1 / 2"
  shows "round_half_even y = n"
proof -
  have "\<lfloor>y\<rfloor> = n" using assms by (simp add: floor_eq_iff)
  then show ?thesis using assms by (simp add: round_half_even_def)
qed

lemma round_half_even_near:
  assumes "of_int n - 1 / 2 < y" and "y < of_int n + 1 / 2"
  shows "round_half_even y = n"
proof (cases "of_int n \<le> y")
  case True
  then show ?thesis using assms(2) by (rule round_half_even_down)
next
  case False
  then have f: "\<lfloor>y\<rfloor> = n - 1" using assms(1) by (simp add: floor_eq_iff)
  have "y - of_int (n - 1) > 1 / 2" using assms(1) by simp
  then show ?thesis by (simp add: round_half_even_def f)
qed

lemma round_double_eq:
  assumes "2 powr of_int e \<le> \<bar>x\<bar>" and "\<bar>x\<bar> < 2 powr (of_int e + 1)" and "- 1022 \<le> e"
    and "of_int n - 1 / 2 < x / 2 powr (of_int e - 52)"
    and "x / 2 powr (of_int e - 52) < of_int n + 1 / 2"
  shows "round_double x = of_int n * 2 powr (of_int e - 52)"
proof -
  have x: "x \<noteq> 0" using assms(1) powr_gt_zero [of 2 "of_int e"] by auto
  have u: "double_ulp x = 2 powr (of_int e - 52)"
    using assms(1-3) by (rule double_ulp_eq)
  have "round_half_even (x / 2 powr (of_int e - 52)) = n"
    using assms(4,5) by (rule round_half_even_near)
  then show ?thesis using x by (simp add: round_double_def u)
qed

lemma round_double_0: "round_double 0 = 0"
  by (simp add: round_double_def)

lemma round_double_error:
  assumes "x \<noteq> 0"
  shows "\<bar>round_double x - x\<bar> \<le> double_ulp x / 2"
proof -
  let ?u = "double_ulp x"
  let ?y = "x / ?u"
  have u: "0 < ?u" by (simp add: double_ulp_def)
  have "\<bar>of_int (round_half_even ?y) - ?y\<bar> \<le> 1 / 2"
    unfolding round_half_even_def Let_def by (auto simp: abs_le_iff)
  then have "\<bar>of_int (round_half_even ?y) - ?y\<bar> * ?u \<le> 1 / 2 * ?u"
    using u by (intro mult_right_mono) simp_all
  moreover have "\<bar>of_int (round_half_even ?y) - ?y\<bar> * ?u
      = \<bar>of_int (round_half_even ?y) * ?u - x\<bar>"
  proof -
    have "(of_int (round_half_even ?y) - ?y) * ?u = of_int (round_half_even ?y) * ?u - x"
      using u by (simp add: left_diff_distrib)
    moreover have "\<bar>of_int (round_half_even ?y) - ?y\<bar> * ?u
        = \<bar>(of_int (round_half_even ?y) - ?y) * ?u\<bar>"
      using u by (simp add: abs_mult)
    ultimately show ?thesis by (simp only:)
  qed
  ultimately show ?thesis using assms by (simp add: round_double_def)
qed

lemma to_double_1: "to_double 1 = Finite 1"
proof -
  have "round_double 1 = of_int (2 ^ 52) * 2 powr (of_int 0 - 52)"
    by (rule round_double_eq) (simp_all add: powr_minus_divide)
  then have "round_double 1 = 1" by (simp add: powr_minus_divide)
  then show ?thesis by (simp add: to_double_def)
qed

lemma to_double_third: "to_double (1 / 3) = Finite (6004799503160661 / 2 ^ 54)"
proof -
  have "round_double (1 / 3) = of_int 6004799503160661 * 2 powr (of_int (- 2) - 52)"
    by (rule round_double_eq) (simp_all add: powr_minus_divide)
  then have "round_double (1 / 3) = 6004799503160661 / 2 ^ 54"
    by (simp add: powr_minus_divide)
  then show ?thesis by (simp add: to_double_def)
qed

lemma pct_diff_double_4_3: "pct_diff_double 4 3 = Finite (6004799503160661 / 2 ^ 54)"
  by (simp add: pct_diff_double_def float_sub_def to_double_1 to_double_third)

lemma to_double_10: "to_double 10 = Finite 10"
proof -
  have "round_double 10 = of_int (5 * 2 ^ 50) * 2 powr (of_int 3 - 52)"
    by (rule round_double_eq) (simp_all add: powr_minus_divide)
  then have "round_double 10 = 10" by (simp add: powr_minus_divide)
  then show ?thesis by (simp add: to_double_def)
qed

lemma to_double_tenth: "to_double (1 / 10) = Finite (3602879701896397 / 2 ^ 55)"
proof -
  have "round_double (1 / 10) = of_int 7205759403792794 * 2 powr (of_int (- 4) - 52)"
    by (rule round_double_eq) (simp_all add: powr_minus_divide)
  then have "round_double (1 / 10) = 3602879701896397 / 2 ^ 55"
    by (simp add: powr_minus_divide)
  then show ?thesis by (simp add: to_double_def)
qed

lemma pct_diff_double_110_100: "pct_diff_double 110 100 = Finite (3602879701896397 / 2 ^ 55)"
  by (simp add: pct_diff_double_def float_sub_def to_double_10 to_double_tenth)

section \<open>Prices and Greeks\<close>


text \<open>
  C1. For strike > 0, spot > 0, time to expiry > 0 and a volatility > 0 and below \<open>2 ^ 512\<close>
  the price is the Black-Scholes-Merton value, the doubles being read as reals: with
  \<open>d1 = (ln (spot / strike) + (r - q + 0.5 * sigma\<^sup>2) * T) / (sigma * sqrt T)\<close> and
  \<open>d2 = d1 - sigma * sqrt T\<close>, the call is worth
  \<open>spot * exp (- q * T) * Phi d1 - strike * exp (- r * T) * Phi d2\<close> and the put
  \<open>strike * exp (- r * T) * Phi (- d2) - spot * exp (- q * T) * Phi (- d1)\<close>, where \<open>Phi\<close>
  is the standard normal distribution function: the function whose derivative is the
  density \<open>exp (- x\<^sup>2 / 2) / sqrt (2 * pi)\<close> and which tends to 0 at minus infinity (and so
  to 1 at plus infinity). From the volatility \<open>2 ^ 512\<close> on no price is returned:
  \<^verbatim>\<open>volatility**2\<close> raises \<^verbatim>\<open>OverflowError\<close>, as the evaluation at \<open>10 ^ 200\<close> shows.
\<close>

theorem price_is_black_scholes_merton_below_overflow:
  assumes "strike > 0" and "spot > 0" and "T > 0" and "sigma > 0" and "sigma < 2 ^ 512"
  shows "(let d1 = (ln (spot / strike) + (r - q + 0.5 * sigma\<^sup>2) * T) / (sigma * sqrt T);
              d2 = d1 - sigma * sqrt T
          in calculate_option_price_py ''call'' spot strike T sigma r q
               = Inr (spot * exp (- q * T) * norm_cdf d1 - strike * exp (- r * T) * norm_cdf d2)
           \<and> calculate_option_price_py ''put'' spot strike T sigma r q
               = Inr (strike * exp (- r * T) * norm_cdf (- d2)
                      - spot * exp (- q * T) * norm_cdf (- d1)))
       \<and> (\<forall>x. DERIV norm_cdf x :> exp (- (x\<^sup>2) / 2) / sqrt (2 * pi))
       \<and> (norm_cdf \<longlongrightarrow> 0) at_bot \<and> (norm_cdf \<longlongrightarrow> 1) at_top"
proof -
  have "calculate_option_price_py ''call'' spot strike T sigma r q
      = Inr (bsm_call spot strike T sigma r q)"
    using assms price_call_valid [OF assms(1-4)]
    by (simp add: price_py_valid)
  moreover have "calculate_option_price_py ''put'' spot strike T sigma r q
      = Inr (bsm_put spot strike T sigma r q)"
    using assms price_put_valid [OF assms(1-4), of "''put''"]
    by (simp add: price_py_valid)
  moreover have "\<forall>x. DERIV norm_cdf x :> exp (- (x\<^sup>2) / 2) / sqrt (2 * pi)"
    using DERIV_norm_cdf by (simp add: norm_pdf_def)
  ultimately show ?thesis
    using norm_cdf_at_bot norm_cdf_at_top
    by (simp add: Let_def bsm_call_def bsm_put_def bs_d1_def bs_d2_def)
qed

theorem price_is_black_scholes_merton_below_overflow_witness:
  "(100::real) > 0 \<and> (30 / 365 :: real) > 0 \<and> (0.3::real) > 0 \<and> (0.3::real) < 2 ^ 512
   \<and> calculate_option_price_py ''call'' 100 100 (30 / 365) 0.3 0.025 0
       = Inr (100 * exp (- 0 * (30 / 365))
                * norm_cdf ((ln (100 / 100) + (0.025 - 0 + 0.5 * 0.3\<^sup>2) * (30 / 365))
                     / (0.3 * sqrt (30 / 365)))
              - 100 * exp (- 0.025 * (30 / 365))
                * norm_cdf ((ln (100 / 100) + (0.025 - 0 + 0.5 * 0.3\<^sup>2) * (30 / 365))
                     / (0.3 * sqrt (30 / 365)) - 0.3 * sqrt (30 / 365)))"
  using price_is_black_scholes_merton_below_overflow [of 100 100 "30 / 365" "0.3" "0.025" 0]
  by (simp add: Let_def)

theorem price_overflow_counterexample:
  "calculate_option_price_py ''call'' 100 100 1 (10 ^ 200) 0.025 0 = Inl OverflowError"
  by (simp add: calculate_option_price_py_def float_pow2_overflows_def)



text \<open>
  C3. With time to expiry \<open>\<le> 0\<close> the price is the intrinsic value, \<open>max 0 (spot - strike)\<close>
  for a call and \<open>max 0 (strike - spot)\<close> for any other option type, and the Greeks are a
  dictionary of the five keys delta, gamma, theta, vega and rho, each exactly 0, whatever the
  volatility, the risk-free rate and the dividend yield.
\<close>

theorem expired_option:
  assumes "T \<le> 0"
  shows "calculate_option_price option_type spot strike T sigma r q
           = Inr (if option_type = ''call'' then max 0 (spot - strike)
                  else max 0 (strike - spot))
       \<and> (\<exists>g. calculate_option_greeks option_type spot strike T sigma r q = Inr g
            \<and> g ''delta'' = Some 0 \<and> g ''gamma'' = Some 0 \<and> g ''theta'' = Some 0
            \<and> g ''vega'' = Some 0 \<and> g ''rho'' = Some 0
            \<and> dom g = {''delta'', ''gamma'', ''theta'', ''vega'', ''rho''})"
  using assms by (auto simp add: calculate_option_price_def calculate_option_greeks_def)

theorem expired_option_witness:
  "(0::real) \<le> 0
   \<and> calculate_option_price ''call'' 110 100 0 0.3 0.025 0 = Inr 10
   \<and> calculate_option_price ''put'' 90 100 0 0.3 0.025 0 = Inr 10
   \<and> (\<exists>g. calculate_option_greeks ''call'' 110 100 0 0.3 0.025 0 = Inr g
        \<and> g ''delta'' = Some 0 \<and> g ''gamma'' = Some 0 \<and> g ''theta'' = Some 0
        \<and> g ''vega'' = Some 0 \<and> g ''rho'' = Some 0)"
  using expired_option [of 0 "''call''" 110 100 "0.3" "0.025" 0]
    expired_option [of 0 "''put''" 90 100 "0.3" "0.025" 0]
  by auto













text \<open>
  C9. For every option type that is not exactly \<^verbatim>\<open>call\<close> and all numeric inputs, the price
  and the Greeks are the results for \<^verbatim>\<open>put\<close>: an unrecognized option type raises nothing
  of its own and takes the put branch.
\<close>

theorem unrecognized_type_is_put:
  assumes "option_type \<noteq> ''call''"
  shows "calculate_option_price option_type spot strike T sigma r q
           = calculate_option_price ''put'' spot strike T sigma r q
       \<and> calculate_option_greeks option_type spot strike T sigma r q
           = calculate_option_greeks ''put'' spot strike T sigma r q"
  using assms
  by (simp add: calculate_option_price_def calculate_option_greeks_def Let_def
        split: option.splits)

theorem unrecognized_type_is_put_witness:
  "''Call'' \<noteq> ''call''
   \<and> calculate_option_price ''Call'' 110 100 1 0.2 0.05 0
       = calculate_option_price ''put'' 110 100 1 0.2 0.05 0
   \<and> calculate_option_greeks ''Call'' 110 100 1 0.2 0.05 0
       = calculate_option_greeks ''put'' 110 100 1 0.2 0.05 0"
  using unrecognized_type_is_put [of "''Call''" 110 100 1 "0.2" "0.05" 0]
  by simp

section \<open>Moneyness\<close>

text \<open>
  C8. For every spot, every strike other than 0 and every threshold, the classifier returns
  ATM whenever the quotient it computes in doubles, \<open>pct_diff_double spot strike\<close> (the
  difference rounded, its absolute value divided by the strike and rounded again), is
  \<open>\<le> threshold\<close>, whatever the option type; otherwise a call is ITM exactly when
  spot > strike and OTM if not, and a put is ITM exactly when spot < strike and OTM if not.
  With the exact quotient in place of the computed one this fails on the boundary: for
  spot 4, strike 3 and the threshold 0.3333333333333333, the double next below one third,
  the exact quotient is above the threshold, the computed one equals it, and the call is ATM.
\<close>

theorem moneyness_classification_double:
  assumes "strike \<noteq> 0"
  shows "(float_le (pct_diff_double spot strike) threshold \<longrightarrow>
            is_itm_atm_otm_double option_type spot strike threshold = Inr ''ATM'')
       \<and> (\<not> float_le (pct_diff_double spot strike) threshold \<longrightarrow>
            is_itm_atm_otm_double ''call'' spot strike threshold
              = (if spot > strike then Inr ''ITM'' else Inr ''OTM'')
          \<and> is_itm_atm_otm_double ''put'' spot strike threshold
              = (if spot < strike then Inr ''ITM'' else Inr ''OTM''))"
  using assms by (simp add: is_itm_atm_otm_double_def pct_diff_double_def)

theorem moneyness_classification_double_witness:
  "(3::real) \<noteq> 0 \<and> (100::real) \<noteq> 0
   \<and> float_le (pct_diff_double 4 3) (6004799503160661 / 2 ^ 54)
   \<and> is_itm_atm_otm_double ''call'' 4 3 (6004799503160661 / 2 ^ 54) = Inr ''ATM''
   \<and> \<not> float_le (pct_diff_double 110 100) (5764607523034235 / 2 ^ 59)
   \<and> is_itm_atm_otm_double ''call'' 110 100 (5764607523034235 / 2 ^ 59) = Inr ''ITM''
   \<and> is_itm_atm_otm_double ''put'' 110 100 (5764607523034235 / 2 ^ 59) = Inr ''OTM''"
  using moneyness_classification_double [of 3 4 "6004799503160661 / 2 ^ 54" "''call''"]
    moneyness_classification_double [of 100 110 "5764607523034235 / 2 ^ 59" "''call''"]
  by (simp add: pct_diff_double_4_3 pct_diff_double_110_100)

theorem moneyness_rounding_counterexample:
  "\<not> \<bar>4 - 3\<bar> / 3 \<le> (6004799503160661 / 2 ^ 54 :: real) \<and> (4::real) > 3
   \<and> is_itm_atm_otm_double ''call'' 4 3 (6004799503160661 / 2 ^ 54) = Inr ''ATM''"
  using pct_diff_double_4_3 by (simp add: is_itm_atm_otm_double_def pct_diff_double_def)

text \<open>
  C10. For every spot, strike > 0 and threshold \<ge> 0, the call and the put on the same spot,
  strike and threshold are either both ATM, or one is ITM and the other OTM: the call is ITM
  exactly when the put is OTM, and the call is OTM exactly when the put is ITM.
\<close>

theorem moneyness_duality:
  assumes "strike > 0" and "threshold \<ge> 0"
  shows "(is_itm_atm_otm ''call'' spot strike threshold = Inr ''ATM''
          \<and> is_itm_atm_otm ''put'' spot strike threshold = Inr ''ATM'')
       \<or> (is_itm_atm_otm ''call'' spot strike threshold = Inr ''ITM''
          \<and> is_itm_atm_otm ''put'' spot strike threshold = Inr ''OTM'')
       \<or> (is_itm_atm_otm ''call'' spot strike threshold = Inr ''OTM''
          \<and> is_itm_atm_otm ''put'' spot strike threshold = Inr ''ITM'')"
proof (cases "\<bar>spot - strike\<bar> / strike \<le> threshold")
  case True
  then show ?thesis using assms by (simp add: is_itm_atm_otm_def)
next
  case False
  have "spot \<noteq> strike"
  proof
    assume "spot = strike"
    then have "\<bar>spot - strike\<bar> / strike = 0" by simp
    with False assms(2) show False by simp
  qed
  then consider "spot > strike" | "spot < strike" by linarith
  then show ?thesis
  proof cases
    case 1
    then show ?thesis using False assms by (simp add: is_itm_atm_otm_def)
  next
    case 2
    then show ?thesis using False assms by (simp add: is_itm_atm_otm_def)
  qed
qed

theorem moneyness_duality_witness:
  "(100::real) > 0 \<and> (0.01::real) \<ge> 0
   \<and> is_itm_atm_otm ''call'' 110 100 0.01 = Inr ''ITM''
   \<and> is_itm_atm_otm ''put'' 110 100 0.01 = Inr ''OTM''"
  using moneyness_duality [of 100 "0.01" 110]
  by (simp add: is_itm_atm_otm_def)

text \<open>
  The duality of calls and puts also holds for the classifier in double arithmetic: equal
  spot and strike give the computed quotient 0, which no threshold \<open>\<ge> 0\<close> excludes.
\<close>

lemma moneyness_duality_double:
  assumes "strike > 0" and "threshold \<ge> 0"
  shows "(is_itm_atm_otm_double ''call'' spot strike threshold = Inr ''ATM''
          \<and> is_itm_atm_otm_double ''put'' spot strike threshold = Inr ''ATM'')
       \<or> (is_itm_atm_otm_double ''call'' spot strike threshold = Inr ''ITM''
          \<and> is_itm_atm_otm_double ''put'' spot strike threshold = Inr ''OTM'')
       \<or> (is_itm_atm_otm_double ''call'' spot strike threshold = Inr ''OTM''
          \<and> is_itm_atm_otm_double ''put'' spot strike threshold = Inr ''ITM'')"
proof (cases "float_le (pct_diff_double spot strike) threshold")
  case True
  then show ?thesis using assms by (simp add: is_itm_atm_otm_double_def pct_diff_double_def)
next
  case False
  have "spot \<noteq> strike"
  proof
    assume "spot = strike"
    then have "pct_diff_double spot strike = Finite 0"
      by (simp add: pct_diff_double_def float_sub_def to_double_def round_double_0)
    with False assms(2) show False by simp
  qed
  then consider "spot > strike" | "spot < strike" by linarith
  then show ?thesis
  proof cases
    case 1
    then show ?thesis using False assms
      by (simp add: is_itm_atm_otm_double_def pct_diff_double_def)
  next
    case 2
    then show ?thesis using False assms
      by (simp add: is_itm_atm_otm_double_def pct_diff_double_def)
  qed
qed

end
